theory Spec2Isabelle
  imports Complex_Main "HOL-Library.Log_Nat"
begin

section \<open>Exceptions\<close>

text \<open>
  Every \<^verbatim>\<open>raise\<close> of \<^verbatim>\<open>torchdata/modifiers.py\<close>, and every exception the Python
  runtime raises on the paths modelled here, is a value of \<open>error\<close>; a computation that may
  raise returns \<open>error + 'a\<close>, with \<open>Inl\<close> for the exception. The string is the message.
\<close>

datatype error =
    ValueError string
  | TypeError string
  | IndexError string
  | AttributeError string
  | OverflowError string
  | KeyError string

section \<open>Classes and instances\<close>

text \<open>
  The concrete classes of the module, and classes a user derives from them
  (the module's docstring invites this: "You can mix provided modifiers or extend them").
  \<open>Subclass n c\<close> is the class declared by \<^verbatim>\<open>class n(c): pass\<close>: it inherits the
  constructor and every method of \<open>c\<close>. The abstract classes \<^verbatim>\<open>Modifier\<close>,
  \<^verbatim>\<open>_Mix\<close>, \<^verbatim>\<open>_Percent\<close> and \<^verbatim>\<open>_Index\<close> only contribute inherited methods
  and are never the type of an instance here.
\<close>

datatype cls =
    C_All
  | C_Any
  | C_UpToPercentage
  | C_FromPercentage
  | C_UpToIndex
  | C_FromIndex
  | C_Indices
  | Subclass string cls

text \<open>\<^verbatim>\<open>issubclass(c, t)\<close>: \<open>t\<close> is \<open>c\<close> or one of its ancestors.\<close>

fun issubclass :: "cls \<Rightarrow> cls \<Rightarrow> bool" where
  "issubclass (Subclass n parent) t = (Subclass n parent = t \<or> issubclass parent t)"
| "issubclass c t = (c = t)"

text \<open>The class of the module whose \<^verbatim>\<open>condition\<close> an instance of \<open>c\<close> runs.\<close>

fun module_class :: "cls \<Rightarrow> cls" where
  "module_class (Subclass n parent) = module_class parent"
| "module_class c = c"

text \<open>
  A cacher is an object of \<^verbatim>\<open>torchdata.cachers\<close>; the modifiers only hold a reference
  to it. An instance of a modifier class is its type together with the attributes its
  constructor assigns, in the order of assignment.
\<close>

type_synonym ref = nat

datatype modifier =
    Mix_obj (type_of: cls) "modifier list" (cacher: ref)
  | Percent_obj (type_of: cls) int (cacher: ref)
  | Index_obj (type_of: cls) (cacher: ref) int
  | Indices_obj (type_of: cls) (cacher: ref) "int list"

definition isinstance :: "modifier \<Rightarrow> cls \<Rightarrow> bool" where
  "isinstance obj t = issubclass (type_of obj) t"

section \<open>The predicate\<close>

text \<open>
  \<open>condition self args\<close> is the call \<^verbatim>\<open>self.condition(*args)\<close>. Every
  \<^verbatim>\<open>condition\<close> of the module is declared \<^verbatim>\<open>def condition(self, index)\<close>, so a call
  with no or with several positional arguments raises \<^verbatim>\<open>TypeError\<close> before the body
  runs (the messages are abridged). An attribute the instance does not have raises \<^verbatim>\<open>AttributeError\<close>.

  \<open>all_conditions\<close> and \<open>any_conditions\<close> are
  \<^verbatim>\<open>all(modifier.condition() for modifier in self.modifiers)\<close> and its \<^verbatim>\<open>any\<close>
  twin: the generator is consumed from the left, stops at the first deciding value and
  lets an exception through.
\<close>

definition missing_argument :: error where
  "missing_argument = TypeError ''condition() missing 1 required positional argument: index''"

definition too_many_arguments :: error where
  "too_many_arguments = TypeError ''condition() takes 2 positional arguments but more were given''"

definition missing_attribute :: error where
  "missing_attribute = AttributeError ''object has no attribute''"

fun condition :: "modifier \<Rightarrow> int list \<Rightarrow> error + bool"
  and all_conditions :: "modifier list \<Rightarrow> error + bool"
  and any_conditions :: "modifier list \<Rightarrow> error + bool"
where
  "condition (Mix_obj k modifiers c) [index] =
     (case module_class k of
        C_All \<Rightarrow> all_conditions modifiers
      | C_Any \<Rightarrow> any_conditions modifiers
      | _ \<Rightarrow> Inl missing_attribute)"
| "condition (Percent_obj k threshold c) [index] =
     (case module_class k of
        C_UpToPercentage \<Rightarrow> Inr (index < threshold)
      | C_FromPercentage \<Rightarrow> Inr (index > threshold)
      | _ \<Rightarrow> Inl missing_attribute)"
| "condition (Index_obj k c self_index) [index] =
     (case module_class k of
        C_UpToIndex \<Rightarrow> Inr (index < self_index)
      | C_FromIndex \<Rightarrow> Inr (index > self_index)
      | _ \<Rightarrow> Inl missing_attribute)"
| "condition (Indices_obj k c indices) [index] =
     (case module_class k of
        C_Indices \<Rightarrow> Inr (index \<in> set indices)
      | _ \<Rightarrow> Inl missing_attribute)"
| "condition self [] = Inl missing_argument"
| "condition self args = Inl too_many_arguments"
| "all_conditions [] = Inr True"
| "all_conditions (m # ms) =
     (case condition m [] of
        Inl e \<Rightarrow> Inl e
      | Inr b \<Rightarrow> if b then all_conditions ms else Inr False)"
| "any_conditions [] = Inr False"
| "any_conditions (m # ms) =
     (case condition m [] of
        Inl e \<Rightarrow> Inl e
      | Inr b \<Rightarrow> if b then Inr True else any_conditions ms)"

section \<open>Constructors\<close>

text \<open>
  \<^verbatim>\<open>_Mix.__init__(self, *modifiers)\<close>, run for a new instance of class \<open>k\<close>.
  \<^verbatim>\<open>modifiers[0]\<close> on the empty tuple raises \<^verbatim>\<open>IndexError\<close>.
\<close>

definition same_type_message :: string where
  "same_type_message = ''All checkers have to be of same type''"

definition Mix_init :: "cls \<Rightarrow> modifier list \<Rightarrow> error + modifier" where
  "Mix_init k modifiers =
     (case modifiers of
        [] \<Rightarrow> Inl (IndexError ''tuple index out of range'')
      | first # _ \<Rightarrow>
          (let first_type = type_of first in
           if \<not> list_all (\<lambda>checker. isinstance checker first_type) modifiers
           then Inl (ValueError same_type_message)
           else Inr (Mix_obj k modifiers (cacher first))))"

definition All_of :: "modifier list \<Rightarrow> error + modifier" where
  "All_of modifiers = Mix_init C_All modifiers"

definition Any_of :: "modifier list \<Rightarrow> error + modifier" where
  "Any_of modifiers = Mix_init C_Any modifiers"

text \<open>\<^verbatim>\<open>Modifier.__or__\<close> and \<^verbatim>\<open>Modifier.__and__\<close>.\<close>

definition or_modifier :: "modifier \<Rightarrow> modifier \<Rightarrow> error + modifier" where
  "or_modifier self other = Any_of [self, other]"

definition and_modifier :: "modifier \<Rightarrow> modifier \<Rightarrow> error + modifier" where
  "and_modifier self other = All_of [self, other]"

text \<open>\<^verbatim>\<open>_Index.__init__(self, cacher, index)\<close> for a new instance of class \<open>k\<close>.\<close>

definition Index_init :: "cls \<Rightarrow> ref \<Rightarrow> int \<Rightarrow> modifier" where
  "Index_init k c index = Index_obj k c index"

definition UpToIndex :: "ref \<Rightarrow> int \<Rightarrow> modifier" where
  "UpToIndex c index = Index_init C_UpToIndex c index"

definition FromIndex :: "ref \<Rightarrow> int \<Rightarrow> modifier" where
  "FromIndex c index = Index_init C_FromIndex c index"

text \<open>\<^verbatim>\<open>Indices.__init__(self, cacher, *indices)\<close>.\<close>

definition Indices :: "ref \<Rightarrow> int list \<Rightarrow> modifier" where
  "Indices c indices = Indices_obj C_Indices c indices"

section \<open>Floats of the Python runtime\<close>

text \<open>
  A Python \<^verbatim>\<open>float\<close> is an IEEE-754 binary64 value: a finite one is a rational
  \<open>m * 2 ^ q\<close> with \<open>\<bar>m\<bar> < 2 ^ 53\<close> and \<open>- 1074 \<le> q \<le> 971\<close>; the others are the
  infinities and NaN. (The sign of zero is not observable on the paths modelled here.)
  Arithmetic computes the exact rational result and rounds it to the nearest binary64
  value, ties to the even significand; a magnitude that rounds to \<open>2 ^ 1024\<close> overflows.
\<close>

datatype pyfloat = Finite rat | PosInf | NegInf | NaN

text \<open>For \<open>a > 0\<close>, the exponent \<open>e\<close> with \<open>2 ^ e \<le> a < 2 ^ (e + 1)\<close>.\<close>

definition ilog2 :: "rat \<Rightarrow> int" where
  "ilog2 a =
     (let (n, d) = quotient_of a; k = bitlen n - bitlen d
      in if 2 powi k \<le> a then k else k - 1)"

definition round_half_even :: "rat \<Rightarrow> int" where
  "round_half_even y =
     (let f = \<lfloor>y\<rfloor>; r = y - of_int f
      in if r < 1 / 2 then f else if 1 / 2 < r then f + 1 else if even f then f else f + 1)"

definition round_binary64 :: "rat \<Rightarrow> pyfloat" where
  "round_binary64 x =
     (if x = 0 then Finite 0
      else
        let a = \<bar>x\<bar>;
            q = max (ilog2 a - 52) (- 1074);
            r = of_int (round_half_even (a / 2 powi q)) * 2 powi q
        in if 2 powi 1024 \<le> r then (if 0 < x then PosInf else NegInf)
           else Finite (if 0 < x then r else - r))"

text \<open>\<^verbatim>\<open>float(n)\<close> for an \<^verbatim>\<open>int\<close>, as the mixed product converts its left operand.\<close>

definition float_of_int :: "int \<Rightarrow> error + pyfloat" where
  "float_of_int n =
     (case round_binary64 (of_int n) of
        Finite x \<Rightarrow> Inr (Finite x)
      | _ \<Rightarrow> Inl (OverflowError ''int too large to convert to float''))"

fun float_mul :: "pyfloat \<Rightarrow> pyfloat \<Rightarrow> pyfloat" where
  "float_mul (Finite a) (Finite b) = round_binary64 (a * b)"
| "float_mul NaN y = NaN"
| "float_mul x NaN = NaN"
| "float_mul (Finite a) PosInf = (if a = 0 then NaN else if 0 < a then PosInf else NegInf)"
| "float_mul (Finite a) NegInf = (if a = 0 then NaN else if 0 < a then NegInf else PosInf)"
| "float_mul PosInf (Finite b) = (if b = 0 then NaN else if 0 < b then PosInf else NegInf)"
| "float_mul NegInf (Finite b) = (if b = 0 then NaN else if 0 < b then NegInf else PosInf)"
| "float_mul PosInf PosInf = PosInf"
| "float_mul PosInf NegInf = NegInf"
| "float_mul NegInf PosInf = NegInf"
| "float_mul NegInf NegInf = PosInf"

text \<open>\<^verbatim>\<open>n * p\<close> for an \<^verbatim>\<open>int\<close> \<open>n\<close> and a \<^verbatim>\<open>float\<close> \<open>p\<close>.\<close>

definition int_mul_float :: "int \<Rightarrow> pyfloat \<Rightarrow> error + pyfloat" where
  "int_mul_float n p =
     (case float_of_int n of Inl e \<Rightarrow> Inl e | Inr x \<Rightarrow> Inr (float_mul x p))"

text \<open>\<^verbatim>\<open>int(x)\<close> for a \<^verbatim>\<open>float\<close>: truncation towards zero.\<close>

definition int_of_float :: "pyfloat \<Rightarrow> error + int" where
  "int_of_float x =
     (case x of
        Finite r \<Rightarrow> Inr (if 0 \<le> r then \<lfloor>r\<rfloor> else \<lceil>r\<rceil>)
      | NaN \<Rightarrow> Inl (ValueError ''cannot convert float NaN to integer'')
      | _ \<Rightarrow> Inl (OverflowError ''cannot convert float infinity to integer''))"

text \<open>\<^verbatim>\<open>n < p\<close> and \<^verbatim>\<open>p < n\<close> for an \<^verbatim>\<open>int\<close> \<open>n\<close>: Python compares the exact values.\<close>

definition int_lt_float :: "int \<Rightarrow> pyfloat \<Rightarrow> bool" where
  "int_lt_float n p =
     (case p of Finite x \<Rightarrow> of_int n < x | PosInf \<Rightarrow> True | NegInf \<Rightarrow> False | NaN \<Rightarrow> False)"

definition float_lt_int :: "pyfloat \<Rightarrow> int \<Rightarrow> bool" where
  "float_lt_int p n =
     (case p of Finite x \<Rightarrow> x < of_int n | PosInf \<Rightarrow> False | NegInf \<Rightarrow> True | NaN \<Rightarrow> False)"

text \<open>
  The rounding rule of IEEE-754 stated on exact values, for \<open>a \<ge> 0\<close> and without
  reference to \<open>round_binary64\<close>: \<open>x\<close> is zero if \<open>a\<close> is; otherwise, with \<open>e\<close> the
  exponent of \<open>a\<close>'s binade and \<open>2 ^ max (e - 52) (- 1074)\<close> the step of the binary64
  grid there, \<open>x\<close> is a multiple of the step at most half a step away from \<open>a\<close>, the even
  multiple when \<open>a\<close> lies halfway between two, and \<open>x\<close> is below \<open>2 ^ 1024\<close>.
\<close>

definition nearest_binary64 :: "rat \<Rightarrow> rat \<Rightarrow> bool" where
  "nearest_binary64 a x \<longleftrightarrow>
     (a = 0 \<and> x = 0) \<or>
     (\<exists>e m. 2 powi e \<le> a \<and> a < 2 powi (e + 1) \<and>
        x = of_int m * 2 powi max (e - 52) (- 1074) \<and>
        \<bar>x - a\<bar> * 2 \<le> 2 powi max (e - 52) (- 1074) \<and>
        (\<bar>x - a\<bar> * 2 = 2 powi max (e - 52) (- 1074) \<longrightarrow> even m) \<and>
        x < 2 powi 1024)"

section \<open>Percentage modifiers\<close>

text \<open>
  \<^verbatim>\<open>_Percent.__init__(self, cacher, p, length)\<close> for a new instance of class \<open>k\<close>;
  \<open>len\<close> is its parameter \<^verbatim>\<open>length\<close>.
  The message of the source ends with the offending value, which is left out here.
\<close>

definition percentage_message :: string where
  "percentage_message = ''Percentage has to be between 0 and 1''"

definition Percent_init :: "cls \<Rightarrow> ref \<Rightarrow> pyfloat \<Rightarrow> int \<Rightarrow> error + modifier" where
  "Percent_init k c p len =
     (if \<not> (int_lt_float 0 p \<and> float_lt_int p 1) then Inl (ValueError percentage_message)
      else
        case int_mul_float len p of
          Inl e \<Rightarrow> Inl e
        | Inr x \<Rightarrow>
            (case int_of_float x of
               Inl e \<Rightarrow> Inl e
             | Inr threshold \<Rightarrow> Inr (Percent_obj k threshold c)))"

definition UpToPercentage :: "ref \<Rightarrow> pyfloat \<Rightarrow> int \<Rightarrow> error + modifier" where
  "UpToPercentage c p len = Percent_init C_UpToPercentage c p len"

definition FromPercentage :: "ref \<Rightarrow> pyfloat \<Rightarrow> int \<Rightarrow> error + modifier" where
  "FromPercentage c p len = Percent_init C_FromPercentage c p len"

section \<open>The wrapped store\<close>

text \<open>
  The cachers live in \<^verbatim>\<open>torchdata.cachers\<close>, outside this module, so the three
  methods a modifier calls on its cacher are parameters: each takes the reference of the
  receiver and the state \<open>'s\<close> of all stores, and returns its result (or the exception it
  raises) with the new state. The world a modifier runs in is that state together with
  the log of the calls made on cachers so far.
\<close>

record ('s, 'v) cachers =
  cacher_contains :: "ref \<Rightarrow> int \<Rightarrow> 's \<Rightarrow> (error + bool) \<times> 's"
  cacher_getitem :: "ref \<Rightarrow> int \<Rightarrow> 's \<Rightarrow> (error + 'v) \<times> 's"
  cacher_setitem :: "ref \<Rightarrow> int \<Rightarrow> 'v \<Rightarrow> 's \<Rightarrow> (error + unit) \<times> 's"

datatype 'v call =
    Contains_call ref int
  | Getitem_call ref int
  | Setitem_call ref int 'v

record ('s, 'v) world =
  stores :: 's
  calls :: "'v call list"

text \<open>\<^verbatim>\<open>index in c\<close>, \<^verbatim>\<open>c[index]\<close> and \<^verbatim>\<open>c[index] = data\<close> on the cacher \<open>c\<close>.\<close>

definition call_contains ::
  "('s, 'v) cachers \<Rightarrow> ref \<Rightarrow> int \<Rightarrow> ('s, 'v) world \<Rightarrow> (error + bool) \<times> ('s, 'v) world" where
  "call_contains cs c index w =
     (case cacher_contains cs c index (stores w) of
        (r, s) \<Rightarrow> (r, \<lparr>stores = s, calls = calls w @ [Contains_call c index]\<rparr>))"

definition call_getitem ::
  "('s, 'v) cachers \<Rightarrow> ref \<Rightarrow> int \<Rightarrow> ('s, 'v) world \<Rightarrow> (error + 'v) \<times> ('s, 'v) world" where
  "call_getitem cs c index w =
     (case cacher_getitem cs c index (stores w) of
        (r, s) \<Rightarrow> (r, \<lparr>stores = s, calls = calls w @ [Getitem_call c index]\<rparr>))"

definition call_setitem ::
  "('s, 'v) cachers \<Rightarrow> ref \<Rightarrow> int \<Rightarrow> 'v \<Rightarrow> ('s, 'v) world \<Rightarrow> (error + unit) \<times> ('s, 'v) world" where
  "call_setitem cs c index data w =
     (case cacher_setitem cs c index data (stores w) of
        (r, s) \<Rightarrow> (r, \<lparr>stores = s, calls = calls w @ [Setitem_call c index data]\<rparr>))"

section \<open>The proxy methods of a modifier\<close>

text \<open>\<^verbatim>\<open>Modifier.__contains__\<close>, \<^verbatim>\<open>Modifier.__setitem__\<close> and \<^verbatim>\<open>Modifier.__getitem__\<close>.\<close>

definition contains ::
  "('s, 'v) cachers \<Rightarrow> modifier \<Rightarrow> int \<Rightarrow> ('s, 'v) world \<Rightarrow> (error + bool) \<times> ('s, 'v) world" where
  "contains cs self index w =
     (case condition self [index] of
        Inl e \<Rightarrow> (Inl e, w)
      | Inr b \<Rightarrow> if b then call_contains cs (cacher self) index w else (Inr False, w))"

definition setitem ::
  "('s, 'v) cachers \<Rightarrow> modifier \<Rightarrow> int \<Rightarrow> 'v \<Rightarrow> ('s, 'v) world \<Rightarrow> (error + unit) \<times> ('s, 'v) world" where
  "setitem cs self index data w =
     (case condition self [index] of
        Inl e \<Rightarrow> (Inl e, w)
      | Inr b \<Rightarrow> if b then call_setitem cs (cacher self) index data w else (Inr (), w))"

definition getitem ::
  "('s, 'v) cachers \<Rightarrow> modifier \<Rightarrow> int \<Rightarrow> ('s, 'v) world \<Rightarrow> (error + 'v) \<times> ('s, 'v) world" where
  "getitem cs self index w = call_getitem cs (cacher self) index w"

text \<open>
  A dictionary-backed store, one dictionary for all cachers keyed by reference and index,
  to run the proxy methods on.
\<close>

definition dict_cachers :: "(((ref \<times> int) \<times> 'v) list, 'v) cachers" where
  "dict_cachers =
     \<lparr>cacher_contains = (\<lambda>c i s. (Inr (map_of s (c, i) \<noteq> None), s)),
      cacher_getitem = (\<lambda>c i s.
        (case map_of s (c, i) of None \<Rightarrow> Inl (KeyError ''index'') | Some v \<Rightarrow> Inr v, s)),
      cacher_setitem = (\<lambda>c i v s. (Inr (), ((c, i), v) # s))\<rparr>"

section \<open>Facts about classes and the predicate\<close>

lemma issubclass_refl: "issubclass c c"
  by (cases c) simp_all

lemma issubclass_size: "issubclass a b \<Longrightarrow> a = b \<or> size b < size a"
  by (induction a) auto

lemma issubclass_antisym: "issubclass a b \<Longrightarrow> issubclass b a \<Longrightarrow> a = b"
  using issubclass_size [of a b] issubclass_size [of b a] by auto

lemma condition_no_argument: "condition m [] = Inl missing_argument"
  by (cases m) simp_all

lemma composite_condition:
  assumes "Mix_init k ms = Inr obj"
    and "module_class k = C_All \<or> module_class k = C_Any"
  shows "condition obj [i] = Inl missing_argument"
  using assms
  by (cases ms) (auto simp: Mix_init_def Let_def condition_no_argument split: if_splits)

section \<open>Facts about rounding\<close>

lemma int_mul_float_error:
  "int_mul_float n p = Inl e \<Longrightarrow> e = OverflowError ''int too large to convert to float''"
  by (auto simp: int_mul_float_def float_of_int_def split: sum.splits pyfloat.splits)

lemma round_half_even_nonneg: "0 \<le> y \<Longrightarrow> 0 \<le> round_half_even y"
  by (auto simp: round_half_even_def Let_def)

lemma round_half_even_le_ceiling: "round_half_even y \<le> \<lceil>y\<rceil>"
  unfolding round_half_even_def Let_def by (auto; linarith)

lemma round_half_even_of_int: "round_half_even (of_int n) = n"
  by (simp add: round_half_even_def)

lemma round_half_even_le_int:
  assumes "y \<le> of_int n" shows "round_half_even y \<le> n"
  using round_half_even_le_ceiling [of y] assms by (meson ceiling_le order_trans)

lemma bitlen_rat_bounds:
  assumes "0 < n"
  shows "(2::rat) powi (bitlen n - 1) \<le> of_int n" and "of_int n < (2::rat) powi (bitlen n)"
proof -
  have b: "2 ^ nat (bitlen n - 1) \<le> n" "n < 2 ^ nat (bitlen n)"
    using bitlen_bounds [OF assms] by auto
  have p: "1 \<le> bitlen n" using assms by (simp add: bitlen_alt_def)
  have "(of_int (2 ^ nat (bitlen n - 1)) :: rat) \<le> of_int n"
    using b(1) by (simp only: of_int_le_iff)
  then show "(2::rat) powi (bitlen n - 1) \<le> of_int n"
    using p by (simp add: power_int_nonneg_exp)
  have "(of_int n :: rat) < of_int (2 ^ nat (bitlen n))"
    using b(2) by (simp only: of_int_less_iff)
  then show "of_int n < (2::rat) powi (bitlen n)"
    using p by (simp add: power_int_nonneg_exp)
qed

lemma pow2_less_imp_less:
  assumes "(2::rat) powi m < 2 powi n" shows "m < n"
proof (rule ccontr)
  assume "\<not> m < n"
  then have "(2::rat) powi n \<le> 2 powi m"
    by (intro power_int_increasing) auto
  with assms show False by simp
qed

lemma ilog2_bounds:
  assumes "0 < a"
  shows "2 powi (ilog2 a) \<le> a \<and> a < 2 powi (ilog2 a + 1)"
proof -
  obtain n d where q: "quotient_of a = (n, d)" by (cases "quotient_of a")
  have d: "0 < d" using q by (rule quotient_of_denom_pos)
  have a: "a = of_int n / of_int d" using q by (rule quotient_of_div)
  have n: "0 < n" using assms d a by (simp add: zero_less_divide_iff)
  define k where "k = bitlen n - bitlen d"
  note rn = bitlen_rat_bounds [OF n] and rd = bitlen_rat_bounds [OF d]
  have "a < 2 powi (bitlen n) / 2 powi (bitlen d - 1)"
    unfolding a using n rn(2) rd(1) by (intro frac_less) auto
  also have "\<dots> = 2 powi (k + 1)"
    by (simp add: k_def power_int_diff [symmetric] algebra_simps)
  finally have up: "a < 2 powi (k + 1)" .
  have "2 powi (bitlen n - 1) / 2 powi (bitlen d) < a"
    unfolding a using d rn(1) rd(2) by (intro frac_less2) auto
  moreover have "2 powi (bitlen n - 1) / 2 powi (bitlen d) = (2::rat) powi (k - 1)"
    by (simp add: k_def power_int_diff [symmetric] algebra_simps)
  ultimately have lo: "2 powi (k - 1) < a" by simp
  have "2 powi (k - 1) \<le> a" using lo by simp
  moreover have "\<not> 2 powi k \<le> a \<Longrightarrow> a < 2 powi k" by simp
  ultimately show ?thesis
    using up by (auto simp: ilog2_def q k_def [symmetric])
qed

lemma ilog2_unique:
  assumes "0 < a" and "2 powi e \<le> a" and "a < 2 powi (e + 1)"
  shows "ilog2 a = e"
proof -
  have b: "2 powi (ilog2 a) \<le> a" "a < 2 powi (ilog2 a + 1)"
    using ilog2_bounds [OF assms(1)] by auto
  have "(2::rat) powi e < 2 powi (ilog2 a + 1)" using assms(2) b(2) by simp
  then have 1: "e < ilog2 a + 1" by (rule pow2_less_imp_less)
  have "(2::rat) powi (ilog2 a) < 2 powi (e + 1)" using assms(3) b(1) by simp
  then have 2: "ilog2 a < e + 1" by (rule pow2_less_imp_less)
  from 1 2 show ?thesis by simp
qed

lemma round_binary64_not_NaN: "round_binary64 x \<noteq> NaN"
  by (simp add: round_binary64_def Let_def)

lemma round_binary64_nonneg:
  assumes "0 \<le> x" and "round_binary64 x = Finite r"
  shows "0 \<le> r"
proof (cases "x = 0")
  case True
  with assms show ?thesis by (simp add: round_binary64_def)
next
  case False
  with assms(1) have "0 < x" by simp
  then have "0 \<le> round_half_even (\<bar>x\<bar> / 2 powi max (ilog2 \<bar>x\<bar> - 52) (- 1074))"
    by (intro round_half_even_nonneg) simp
  with assms(2) \<open>0 < x\<close> show ?thesis
    by (auto simp: round_binary64_def Let_def split: if_splits)
qed

lemma round_binary64_bounded:
  assumes "0 < a" and "a < 2 powi E" and "- 1074 \<le> E" and "E \<le> 1023"
  shows "\<exists>r. round_binary64 a = Finite r \<and> 0 \<le> r \<and> r \<le> 2 powi E"
proof -
  define e where "e = ilog2 a"
  define q where "q = max (e - 52) (- 1074)"
  define y where "y = a / 2 powi q"
  define r where "r = of_int (round_half_even y) * (2::rat) powi q"
  have b: "2 powi e \<le> a" "a < 2 powi (e + 1)"
    using ilog2_bounds [OF assms(1)] by (auto simp: e_def)
  have "(2::rat) powi e < 2 powi E" using b(1) assms(2) by simp
  then have eE: "e + 1 \<le> E" using pow2_less_imp_less by fastforce
  have y0: "0 \<le> y" using assms(1) by (simp add: y_def)
  have r0: "0 \<le> r"
    unfolding r_def using round_half_even_nonneg [OF y0] by simp
  have "y < 2 powi (e + 1) / 2 powi q"
    unfolding y_def using b(2) by (simp add: divide_strict_right_mono)
  then have y1: "y < 2 powi (e + 1 - q)"
    by (simp add: power_int_diff)
  have rE: "r \<le> 2 powi E"
  proof (cases "q \<le> e + 1")
    case True
    have "(2::rat) powi (e + 1 - q) = of_int (2 ^ nat (e + 1 - q))"
      using True by (simp add: power_int_nonneg_exp)
    with y1 have "round_half_even y \<le> 2 ^ nat (e + 1 - q)"
      by (intro round_half_even_le_int) simp
    then have "(of_int (round_half_even y) :: rat) \<le> of_int (2 ^ nat (e + 1 - q))"
      by (simp only: of_int_le_iff)
    then have "(of_int (round_half_even y) :: rat) \<le> 2 powi (e + 1 - q)"
      using True by (simp add: power_int_nonneg_exp)
    then have "r \<le> 2 powi (e + 1 - q) * 2 powi q"
      unfolding r_def by (intro mult_right_mono) auto
    also have "\<dots> = 2 powi (e + 1)"
      by (simp add: power_int_add [symmetric])
    also have "\<dots> \<le> 2 powi E"
      using eE by (intro power_int_increasing) auto
    finally show ?thesis .
  next
    case False
    then have q: "q = - 1074" by (auto simp: q_def max_def split: if_splits)
    have "(2::rat) powi (e + 1 - q) \<le> 2 powi 0"
      using False by (intro power_int_increasing) auto
    with y1 have "y \<le> of_int 1" by simp
    then have "round_half_even y \<le> 1" by (rule round_half_even_le_int)
    then have "(of_int (round_half_even y) :: rat) \<le> 1"
      by (metis of_int_le_iff of_int_1)
    then have "r \<le> 1 * 2 powi q"
      unfolding r_def by (intro mult_right_mono) auto
    also have "\<dots> \<le> 2 powi E"
      unfolding q using assms(3) by (simp only: mult_1) (intro power_int_increasing, auto)
    finally show ?thesis .
  qed
  have "(2::rat) powi E \<le> 2 powi 1023"
    using assms(4) by (intro power_int_increasing) auto
  also have "\<dots> < 2 powi 1024"
    by (intro power_int_strict_increasing) auto
  finally have "r < 2 powi 1024" using rE by simp
  then have "round_binary64 a = Finite r"
    using assms(1) unfolding round_binary64_def r_def y_def q_def e_def
    by (simp add: Let_def)
  with r0 rE show ?thesis by blast
qed

text \<open>
  The rounded value of a positive \<open>a\<close> lies on the grid of its binade (or of the
  subnormals), has a significand of at most 53 bits, and is within half a grid step of
  \<open>a\<close>.
\<close>

lemma round_half_even_nearest: "\<bar>of_int (round_half_even y) - y\<bar> \<le> 1 / 2"
proof -
  have "of_int \<lfloor>y\<rfloor> \<le> y" "y < of_int \<lfloor>y\<rfloor> + 1" by linarith+
  then show ?thesis
    unfolding round_half_even_def Let_def by (auto simp: abs_le_iff)
qed

lemma round_binary64_nearest:
  assumes "0 < a" and "round_binary64 a = Finite r"
  shows "\<exists>m. r = of_int m * 2 powi max (ilog2 a - 52) (- 1074) \<and> 0 \<le> m \<and> m \<le> 2 ^ 53 \<and>
    \<bar>r - a\<bar> \<le> 2 powi max (ilog2 a - 52) (- 1074) / 2"
proof -
  define q where "q = max (ilog2 a - 52) (- 1074)"
  define y where "y = a / 2 powi q"
  define m where "m = round_half_even y"
  have r: "r = of_int m * 2 powi q"
    using assms unfolding round_binary64_def m_def y_def q_def
    by (simp add: Let_def split: if_splits)
  have y0: "0 \<le> y" using assms(1) by (simp add: y_def)
  have m0: "0 \<le> m" unfolding m_def using y0 by (rule round_half_even_nonneg)
  have b: "a < 2 powi (ilog2 a + 1)" using ilog2_bounds [OF assms(1)] by simp
  have "y < 2 powi (ilog2 a + 1) / 2 powi q"
    unfolding y_def using b by (simp add: divide_strict_right_mono)
  also have "\<dots> = 2 powi (ilog2 a + 1 - q)" by (simp add: power_int_diff)
  also have "\<dots> \<le> 2 powi 53"
    by (intro power_int_increasing) (auto simp: q_def)
  finally have "y \<le> of_int (2 ^ 53)" by simp
  then have m53: "m \<le> 2 ^ 53" unfolding m_def by (rule round_half_even_le_int)
  have a: "a = y * 2 powi q" by (simp add: y_def)
  have "r - a = (of_int m - y) * 2 powi q" by (simp add: r a algebra_simps)
  then have "\<bar>r - a\<bar> = \<bar>of_int m - y\<bar> * 2 powi q" by (simp add: abs_mult)
  also have "\<dots> \<le> (1 / 2) * 2 powi q"
    unfolding m_def using round_half_even_nearest [of y] by (intro mult_right_mono) auto
  finally have "\<bar>r - a\<bar> \<le> 2 powi q / 2" by simp
  with r m0 m53 show ?thesis unfolding q_def by blast
qed

text \<open>
  Rounding is visible in the product: with \<open>p\<close> the float nearest to \<open>1 / 3\<close>, which
  is below \<open>1 / 3\<close>, the float product \<open>3 * p\<close> is exactly 1.
\<close>

lemma floor_rat_numeral:
  "\<lfloor>(numeral a :: rat) / numeral b\<rfloor> = numeral a div numeral b"
  using floor_divide_of_int_eq [of "numeral a" "numeral b", where ?'a = rat] by simp

lemma round_binary64_third:
  "round_binary64 (1 / 3) = Finite (6004799503160661 / 18014398509481984)"
proof -
  have "ilog2 (1 / 3) = - 2" by (rule ilog2_unique) simp_all
  then show ?thesis
    by (simp add: round_binary64_def round_half_even_def Let_def floor_rat_numeral)
qed

lemma int_mul_float_third:
  "int_mul_float 3 (Finite (6004799503160661 / 18014398509481984)) = Inr (Finite 1)"
proof -
  have "ilog2 3 = 1" by (rule ilog2_unique) simp_all
  then have 3: "float_of_int 3 = Inr (Finite 3)"
    by (simp add: float_of_int_def round_binary64_def round_half_even_def Let_def)
  have "ilog2 (18014398509481983 / 18014398509481984) = - 1"
    by (rule ilog2_unique) simp_all
  then show ?thesis
    by (simp add: int_mul_float_def 3 round_binary64_def round_half_even_def Let_def
        floor_rat_numeral)
qed

lemma float_of_int_1000: "float_of_int 1000 = Inr (Finite 1000)"
proof -
  have "ilog2 1000 = 9" by (rule ilog2_unique) simp_all
  then show ?thesis
    by (simp add: float_of_int_def round_binary64_def round_half_even_def Let_def)
qed

lemma int_mul_float_example: "int_mul_float 1000 (Finite (1 / 2)) = Inr (Finite 500)"
proof -
  have "ilog2 500 = 8" by (rule ilog2_unique) simp_all
  then show ?thesis
    by (simp add: int_mul_float_def float_of_int_1000 round_binary64_def
        round_half_even_def Let_def)
qed

lemma float_of_int_Inr:
  assumes "float_of_int n = Inr x"
  shows "\<exists>r. round_binary64 (of_int n) = Finite r \<and> x = Finite r"
proof (cases "round_binary64 (of_int n)")
  case (Finite r)
  with assms have "x = Finite r" by (simp add: float_of_int_def)
  with Finite show ?thesis by blast
qed (use assms in \<open>simp_all add: float_of_int_def\<close>)

lemma int_mul_float_Inr:
  assumes "int_mul_float n p = Inr x"
  shows "\<exists>r. round_binary64 (of_int n) = Finite r \<and> x = float_mul (Finite r) p"
proof (cases "float_of_int n")
  case (Inl e)
  with assms show ?thesis by (simp add: int_mul_float_def)
next
  case (Inr y)
  with assms have "x = float_mul y p" by (simp add: int_mul_float_def)
  with float_of_int_Inr [OF Inr] show ?thesis by blast
qed

lemma int_mul_float_nonneg:
  assumes "0 \<le> n" and "0 \<le> p" and "int_mul_float n (Finite p) = Inr (Finite x)"
  shows "0 \<le> x"
proof -
  from int_mul_float_Inr [OF assms(3)] obtain r
    where r: "round_binary64 (of_int n) = Finite r"
      and x: "Finite x = float_mul (Finite r) (Finite p)"
    by blast
  have "(0::rat) \<le> of_int n" using assms(1) by simp
  then have "0 \<le> r" using r by (rule round_binary64_nonneg)
  then have "0 \<le> r * p" using assms(2) by simp
  moreover have "round_binary64 (r * p) = Finite x" using x by simp
  ultimately show ?thesis by (rule round_binary64_nonneg)
qed

lemma int_mul_float_not_NaN: "int_mul_float n (Finite p) \<noteq> Inr NaN"
proof
  assume "int_mul_float n (Finite p) = Inr NaN"
  from int_mul_float_Inr [OF this] obtain r where "NaN = float_mul (Finite r) (Finite p)"
    by blast
  then have "round_binary64 (r * p) = NaN" by simp
  then show False by (simp add: round_binary64_not_NaN)
qed


lemma int_mul_float_finite:
  assumes "0 \<le> n" and "n < 2 ^ 1023" and "0 < p" and "p < 1"
  shows "\<exists>x. int_mul_float n (Finite p) = Inr (Finite x)"
proof (cases "n = 0")
  case True
  then show ?thesis
    by (simp add: int_mul_float_def float_of_int_def round_binary64_def)
next
  case False
  with assms(1) have n: "(0::rat) < of_int n" by simp
  have "(of_int n :: rat) < of_int (2 ^ 1023)"
    using assms(2) by (simp only: of_int_less_iff)
  also have "(of_int (2 ^ 1023) :: rat) = 2 powi 1023"
    by (simp only: of_int_power of_int_numeral power_int_numeral)
  finally have "(of_int n :: rat) < 2 powi 1023" .
  from round_binary64_bounded [OF n this] obtain r
    where r: "round_binary64 (of_int n) = Finite r" "0 \<le> r" "r \<le> 2 powi 1023"
    by auto
  have y: "float_of_int n = Inr (Finite r)" by (simp add: float_of_int_def r(1))
  show ?thesis
  proof (cases "r = 0")
    case True
    then show ?thesis by (simp add: int_mul_float_def y round_binary64_def)
  next
    case False
    with r(2) have "0 < r" by simp
    then have pos: "0 < r * p" using assms(3) by simp
    have "r * p < r * 1" using \<open>0 < r\<close> assms(4) by (intro mult_strict_left_mono)
    then have "r * p < r" by simp
    then have "r * p < 2 powi 1023" using r(3) by (rule less_le_trans)
    from round_binary64_bounded [OF pos this] obtain x where "round_binary64 (r * p) = Finite x"
      by auto
    then show ?thesis by (simp add: int_mul_float_def y)
  qed
qed


lemma Percent_init_valid:
  assumes "0 < p" and "p < 1"
  shows "Percent_init k c (Finite p) len =
    (case int_mul_float len (Finite p) of
       Inl e \<Rightarrow> Inl e
     | Inr x \<Rightarrow>
         (case int_of_float x of
            Inl e \<Rightarrow> Inl e
          | Inr threshold \<Rightarrow> Inr (Percent_obj k threshold c)))"
  using assms by (simp add: Percent_init_def int_lt_float_def float_lt_int_def)

lemma Percent_init_finite:
  assumes "0 < p" and "p < 1" and "0 \<le> len"
    and "int_mul_float len (Finite p) = Inr (Finite x)"
  shows "Percent_init k c (Finite p) len = Inr (Percent_obj k \<lfloor>x\<rfloor> c)"
proof -
  have "0 \<le> p" using assms(1) by simp
  with assms(3) have "0 \<le> x" using assms(4) by (rule int_mul_float_nonneg)
  then show ?thesis
    by (simp add: Percent_init_valid [OF assms(1,2)] assms(4) int_of_float_def)
qed

lemma Percent_init_Inl:
  assumes "0 < p" and "p < 1" and "0 \<le> len"
    and "Percent_init k c (Finite p) len = Inl e"
  shows "(\<exists>msg. e = OverflowError msg) \<and> 2 ^ 1023 \<le> len"
proof -
  have big: "2 ^ 1023 \<le> len"
  proof (rule ccontr)
    assume "\<not> 2 ^ 1023 \<le> len"
    then have "len < 2 ^ 1023" by (simp only: not_le)
    from int_mul_float_finite [OF assms(3) this assms(1,2)] obtain x
      where "int_mul_float len (Finite p) = Inr (Finite x)" by blast
    from Percent_init_finite [OF assms(1,2,3) this, of k c] assms(4) show False by simp
  qed
  have "\<exists>msg. e = OverflowError msg"
  proof (cases "int_mul_float len (Finite p)")
    case (Inl e')
    have "e = e'" using Inl assms(4) by (simp add: Percent_init_valid [OF assms(1,2)])
    with int_mul_float_error [OF Inl] show ?thesis by blast
  next
    case (Inr y)
    have "y \<noteq> NaN" using Inr int_mul_float_not_NaN [of len p] by auto
    with Inr assms(4) show ?thesis
      by (cases y) (auto simp: Percent_init_valid [OF assms(1,2)] int_of_float_def split: if_splits)
  qed
  with big show ?thesis by (rule conjI [rotated])
qed

text \<open>
  \<open>round_binary64\<close> obeys the rounding rule stated on exact values, and the rule
  determines the rounded value.
\<close>

lemma not_half: "(z::rat) < 1 / 2 \<Longrightarrow> z * 2 = 1 \<Longrightarrow> False"
  by linarith

lemma round_half_even_tie_even:
  assumes "\<bar>of_int (round_half_even y) - y\<bar> * 2 = 1"
  shows "even (round_half_even y)"
proof -
  have f: "of_int \<lfloor>y\<rfloor> \<le> y" "y < of_int \<lfloor>y\<rfloor> + 1" by linarith+
  show ?thesis
  proof (cases "y - of_int \<lfloor>y\<rfloor> < 1 / 2")
    case True
    then have r: "round_half_even y = \<lfloor>y\<rfloor>" by (simp add: round_half_even_def Let_def)
    have "\<bar>of_int \<lfloor>y\<rfloor> - y\<bar> = y - of_int \<lfloor>y\<rfloor>" using f by simp
    with assms r have "(y - of_int \<lfloor>y\<rfloor>) * 2 = 1" by simp
    with True have False by (rule not_half)
    then show ?thesis ..
  next
    case False
    show ?thesis
    proof (cases "1 / 2 < y - of_int \<lfloor>y\<rfloor>")
      case True
      then have r: "round_half_even y = \<lfloor>y\<rfloor> + 1" by (simp add: round_half_even_def Let_def)
      have "\<bar>of_int (\<lfloor>y\<rfloor> + 1) - y\<bar> = of_int \<lfloor>y\<rfloor> + 1 - y" using f by simp
      with assms r have e: "(of_int \<lfloor>y\<rfloor> + 1 - y) * 2 = 1" by simp
      from True have "of_int \<lfloor>y\<rfloor> + 1 - y < 1 / 2" by simp
      from this e have False by (rule not_half)
      then show ?thesis ..
    next
      case nt: False
      with False show ?thesis by (simp add: round_half_even_def Let_def)
    qed
  qed
qed

lemma round_binary64_nearest_even:
  assumes "0 \<le> a" and "round_binary64 a = Finite x"
  shows "nearest_binary64 a x"
proof (cases "a = 0")
  case True
  with assms(2) show ?thesis by (simp add: round_binary64_def nearest_binary64_def)
next
  case False
  with assms(1) have pos: "0 < a" by simp
  define e where "e = ilog2 a"
  define q where "q = max (e - 52) (- 1074)"
  define y where "y = a / 2 powi q"
  define m where "m = round_half_even y"
  have s: "(0::rat) < 2 powi q" by simp
  have fin: "x = of_int m * 2 powi q \<and> x < 2 powi 1024"
    using assms(2) pos unfolding round_binary64_def m_def y_def q_def e_def
    by (simp add: Let_def split: if_splits)
  have b: "2 powi e \<le> a" "a < 2 powi (e + 1)"
    using ilog2_bounds [OF pos] by (simp_all add: e_def)
  have a: "a = y * 2 powi q" by (simp add: y_def)
  have "x - a = (of_int m - y) * 2 powi q" using fin by (simp add: a algebra_simps)
  then have d: "\<bar>x - a\<bar> = \<bar>of_int m - y\<bar> * 2 powi q" by (simp add: abs_mult)
  have "\<bar>of_int m - y\<bar> * 2 \<le> 1"
    unfolding m_def using round_half_even_nearest [of y] by simp
  then have "\<bar>of_int m - y\<bar> * 2 * 2 powi q \<le> 1 * 2 powi q"
    by (intro mult_right_mono) auto
  then have near: "\<bar>x - a\<bar> * 2 \<le> 2 powi q" by (simp add: d mult_ac)
  have tie: "even m" if "\<bar>x - a\<bar> * 2 = 2 powi q"
  proof -
    from that have "(\<bar>of_int m - y\<bar> * 2) * 2 powi q = 1 * 2 powi q" by (simp add: d mult_ac)
    then have "\<bar>of_int m - y\<bar> * 2 = 1" using s by (simp only: mult_cancel_right) auto
    then show ?thesis unfolding m_def by (rule round_half_even_tie_even)
  qed
  show ?thesis
    unfolding nearest_binary64_def using b fin near tie unfolding q_def by blast
qed

lemma nearest_binary64_unique:
  assumes "nearest_binary64 a x" and "nearest_binary64 a x'"
  shows "x = x'"
proof (cases "a = 0")
  case True
  have "\<not> 2 powi e \<le> (0::rat)" for e by (simp add: not_le)
  with True assms show ?thesis by (auto simp: nearest_binary64_def)
next
  case False
  from assms(1) False obtain e m where 1: "2 powi e \<le> a" "a < 2 powi (e + 1)"
    "x = of_int m * 2 powi max (e - 52) (- 1074)"
    "\<bar>x - a\<bar> * 2 \<le> 2 powi max (e - 52) (- 1074)"
    "\<bar>x - a\<bar> * 2 = 2 powi max (e - 52) (- 1074) \<longrightarrow> even m"
    unfolding nearest_binary64_def by blast
  from assms(2) False obtain e' m' where 2: "2 powi e' \<le> a" "a < 2 powi (e' + 1)"
    "x' = of_int m' * 2 powi max (e' - 52) (- 1074)"
    "\<bar>x' - a\<bar> * 2 \<le> 2 powi max (e' - 52) (- 1074)"
    "\<bar>x' - a\<bar> * 2 = 2 powi max (e' - 52) (- 1074) \<longrightarrow> even m'"
    unfolding nearest_binary64_def by blast
  have "(2::rat) powi e < 2 powi (e' + 1)" using 1(1) 2(2) by simp
  then have "e < e' + 1" by (rule pow2_less_imp_less)
  moreover have "(2::rat) powi e' < 2 powi (e + 1)" using 2(1) 1(2) by simp
  then have "e' < e + 1" by (rule pow2_less_imp_less)
  ultimately have e: "e' = e" by simp
  define s :: rat where "s = 2 powi max (e - 52) (- 1074)"
  have s: "0 < s" by (simp add: s_def)
  note x = 1(3) [folded s_def] and x' = 2(3) [unfolded e, folded s_def]
  note n = 1(4) [folded s_def] and n' = 2(4) [unfolded e, folded s_def]
  note t = 1(5) [folded s_def] and t' = 2(5) [unfolded e, folded s_def]
  have tri: "\<bar>x - x'\<bar> * 2 \<le> \<bar>x - a\<bar> * 2 + \<bar>x' - a\<bar> * 2" by (simp add: abs_if)
  also have "\<dots> \<le> s + s" using n n' by simp
  finally have close: "\<bar>x - x'\<bar> \<le> s" by simp
  have "x - x' = of_int (m - m') * s" by (simp add: x x' algebra_simps)
  then have "\<bar>x - x'\<bar> = of_int \<bar>m - m'\<bar> * s" using s by (simp add: abs_mult)
  with close have "of_int \<bar>m - m'\<bar> * s \<le> 1 * s" by simp
  then have "(of_int \<bar>m - m'\<bar> :: rat) \<le> 1" using s by (simp only: mult_le_cancel_right_pos)
  then have le1: "\<bar>m - m'\<bar> \<le> 1" by (metis of_int_le_iff of_int_1)
  show ?thesis
  proof (cases "m = m'")
    case True
    then show ?thesis by (simp add: x x')
  next
    case False
    with le1 have d1: "\<bar>m - m'\<bar> = 1" by simp
    have "\<bar>x - x'\<bar> = s" using \<open>\<bar>x - x'\<bar> = of_int \<bar>m - m'\<bar> * s\<close> d1 by simp
    with tri have "s * 2 \<le> \<bar>x - a\<bar> * 2 + \<bar>x' - a\<bar> * 2" by simp
    with n n' have "\<bar>x - a\<bar> * 2 = s" "\<bar>x' - a\<bar> * 2 = s" by simp_all
    with t t' have "even m" "even m'" by simp_all
    then have "even (m - m')" by simp
    then have "even \<bar>m - m'\<bar>" by simp
    with d1 show ?thesis by simp
  qed
qed

text \<open>
  The largest finite binary64 value is \<open>2 ^ 1024 - 2 ^ 971\<close>; rounding stays finite
  exactly below \<open>2 ^ 1024 - 2 ^ 970\<close>, halfway to \<open>2 ^ 1024\<close>.
\<close>

lemma round_half_even_floor: "\<lfloor>y\<rfloor> \<le> round_half_even y \<and> round_half_even y \<le> \<lfloor>y\<rfloor> + 1"
  by (simp add: round_half_even_def Let_def)

lemma round_half_even_below:
  assumes "y * 2 < of_int K * 2 - 1"
  shows "round_half_even y \<le> K - 1"
proof -
  define f where "f = \<lfloor>y\<rfloor>"
  have f: "of_int f \<le> y" "y < of_int f + 1" unfolding f_def by linarith+
  have "(of_int f :: rat) < of_int K" using f(1) assms by linarith
  then have fK: "f < K" by (simp only: of_int_less_iff)
  show ?thesis
  proof (cases "f = K - 1")
    case True
    then have "(of_int f :: rat) = of_int K - 1" by simp
    with assms have "y - of_int f < 1 / 2" by linarith
    then have "round_half_even y = f" by (simp add: round_half_even_def Let_def f_def)
    with True show ?thesis by simp
  next
    case False
    with fK have "f + 1 \<le> K - 1" by simp
    with round_half_even_floor [of y] show ?thesis by (simp add: f_def)
  qed
qed

lemma round_half_even_above:
  assumes "of_int K * 2 - 1 \<le> y * 2" and "even K"
  shows "K \<le> round_half_even y"
proof -
  define f where "f = \<lfloor>y\<rfloor>"
  have f: "of_int f \<le> y" "y < of_int f + 1" unfolding f_def by linarith+
  have "(of_int K :: rat) - 1 < of_int f + 1" using f(2) assms(1) by linarith
  then have "(of_int (K - 1) :: rat) < of_int (f + 1)" by simp
  then have fK: "K - 1 < f + 1" by (simp only: of_int_less_iff)
  show ?thesis
  proof (cases "f = K - 1")
    case True
    then have o: "odd f" using assms(2) by simp
    from True have "(of_int f :: rat) = of_int K - 1" by simp
    with assms(1) have h: "\<not> y - of_int f < 1 / 2" by linarith
    have "round_half_even y = f + 1"
      using h o by (simp add: round_half_even_def Let_def f_def)
    with True show ?thesis by simp
  next
    case False
    with fK have "K \<le> f" by simp
    with round_half_even_floor [of y] show ?thesis by (simp add: f_def)
  qed
qed

lemma round_binary64_finite:
  assumes "0 < a" and "a < 2 powi 1024 - 2 powi 970"
  shows "\<exists>r. round_binary64 a = Finite r \<and> 0 \<le> r \<and> r \<le> 2 powi 1024 - 2 powi 971"
proof (cases "a < 2 powi 1023")
  case True
  from round_binary64_bounded [OF assms(1) True] obtain r
    where r: "round_binary64 a = Finite r" "0 \<le> r" "r \<le> 2 powi 1023" by auto
  have "(2::rat) powi 1023 \<le> 2 powi 1024 - 2 powi 971" by simp
  with r show ?thesis by fastforce
next
  case False
  then have lo: "2 powi 1023 \<le> a" by simp
  have "a < 2 powi (1023 + 1)" using assms(2) by simp
  with assms(1) lo have e: "ilog2 a = 1023" by (intro ilog2_unique)
  define m where "m = round_half_even (a / 2 powi 971)"
  have "a / 2 powi 971 * 2 < of_int (2 ^ 53) * 2 - 1"
    using assms(2) by (simp add: field_simps)
  then have "m \<le> 2 ^ 53 - 1" unfolding m_def by (rule round_half_even_below)
  then have "(of_int m :: rat) \<le> of_int (2 ^ 53 - 1)" by (simp only: of_int_le_iff)
  then have "of_int m * (2::rat) powi 971 \<le> of_int (2 ^ 53 - 1) * 2 powi 971"
    by (intro mult_right_mono) auto
  also have "\<dots> = 2 powi 1024 - 2 powi 971" by simp
  finally have up: "of_int m * (2::rat) powi 971 \<le> 2 powi 1024 - 2 powi 971" .
  have "0 \<le> a / 2 powi 971" using assms(1) by simp
  then have "0 \<le> m" unfolding m_def by (rule round_half_even_nonneg)
  then have nn: "0 \<le> of_int m * (2::rat) powi 971" by simp
  have "(2::rat) powi 1024 - 2 powi 971 < 2 powi 1024" by simp
  with up have "\<not> 2 powi 1024 \<le> of_int m * (2::rat) powi 971" by simp
  then have "round_binary64 a = Finite (of_int m * 2 powi 971)"
    using assms(1) unfolding round_binary64_def m_def by (simp add: Let_def e)
  with nn up show ?thesis by blast
qed

lemma round_binary64_overflow:
  assumes "2 powi 1024 - 2 powi 970 \<le> a"
  shows "round_binary64 a = PosInf"
proof -
  have "(0::rat) < 2 powi 1024 - 2 powi 970" by simp
  with assms have pos: "0 < a" by simp
  define e where "e = ilog2 a"
  have b: "2 powi e \<le> a" "a < 2 powi (e + 1)"
    using ilog2_bounds [OF pos] by (simp_all add: e_def)
  have "(2::rat) powi 1023 \<le> 2 powi 1024 - 2 powi 970" by simp
  with assms b(2) have "(2::rat) powi 1023 < 2 powi (e + 1)" by simp
  then have e1023: "1023 \<le> e" using pow2_less_imp_less by fastforce
  then have q: "max (e - 52) (- 1074) = e - 52" by simp
  define m where "m = round_half_even (a / 2 powi (e - 52))"
  have big: "2 powi 1024 \<le> of_int m * (2::rat) powi (e - 52)"
  proof (cases "e = 1023")
    case True
    have "of_int (2 ^ 53) * 2 - 1 \<le> a / 2 powi 971 * 2"
      using assms by (simp add: field_simps)
    then have "2 ^ 53 \<le> round_half_even (a / 2 powi 971)"
      by (rule round_half_even_above) simp
    then have "2 ^ 53 \<le> m" by (simp add: m_def True)
    then have "(of_int (2 ^ 53) :: rat) \<le> of_int m" by (simp only: of_int_le_iff)
    then have "of_int (2 ^ 53) * (2::rat) powi 971 \<le> of_int m * 2 powi 971"
      by (intro mult_right_mono) auto
    then show ?thesis by (simp add: True)
  next
    case False
    with e1023 have e1024: "1024 \<le> e" by simp
    have "(2::rat) powi e / 2 powi (e - 52) \<le> a / 2 powi (e - 52)"
      using b(1) by (simp add: divide_right_mono)
    moreover have "(2::rat) powi e / 2 powi (e - 52) = 2 powi 52"
      by (simp add: power_int_diff [symmetric])
    ultimately have "of_int (2 ^ 52) \<le> a / 2 powi (e - 52)" by simp
    then have "2 ^ 52 \<le> \<lfloor>a / 2 powi (e - 52)\<rfloor>" by (simp only: le_floor_iff)
    also have "\<dots> \<le> m"
      unfolding m_def using round_half_even_floor [of "a / 2 powi (e - 52)"] by (rule conjunct1)
    finally have "2 ^ 52 \<le> m" .
    then have "(of_int (2 ^ 52) :: rat) \<le> of_int m" by (simp only: of_int_le_iff)
    then have step: "of_int (2 ^ 52) * (2::rat) powi (e - 52) \<le> of_int m * 2 powi (e - 52)"
      by (intro mult_right_mono) auto
    have split: "(2::rat) powi e = of_int (2 ^ 52) * 2 powi (e - 52)"
    proof -
      have "(2::rat) powi e = 2 powi (52 + (e - 52))" by simp
      also have "\<dots> = 2 powi 52 * 2 powi (e - 52)"
        by (rule power_int_add) simp
      finally show ?thesis by simp
    qed
    have "(2::rat) powi 1024 \<le> 2 powi e"
      using e1024 by (intro power_int_increasing) auto
    also note split
    also note step
    finally show ?thesis .
  qed
  show ?thesis
    using pos big unfolding round_binary64_def m_def e_def
    by (simp add: Let_def q [unfolded e_def])
qed

lemma float_of_int_ok:
  assumes "0 \<le> n" and "n < 2 ^ 1024 - 2 ^ 970"
  shows "\<exists>y. round_binary64 (of_int n) = Finite y \<and> float_of_int n = Inr (Finite y) \<and>
    0 \<le> y \<and> y \<le> 2 powi 1024 - 2 powi 971"
proof (cases "n = 0")
  case True
  then show ?thesis by (simp add: float_of_int_def round_binary64_def)
next
  case False
  with assms(1) have pos: "(0::rat) < of_int n" by simp
  have "(of_int n :: rat) < of_int (2 ^ 1024 - 2 ^ 970)"
    using assms(2) by (simp only: of_int_less_iff)
  then have "(of_int n :: rat) < 2 powi 1024 - 2 powi 970" by simp
  from round_binary64_finite [OF pos this] obtain y
    where y: "round_binary64 (of_int n) = Finite y" "0 \<le> y" "y \<le> 2 powi 1024 - 2 powi 971"
    by blast
  from y(1) have "float_of_int n = Inr (Finite y)" by (simp add: float_of_int_def)
  with y show ?thesis by blast
qed

lemma float_of_int_overflow:
  assumes "2 ^ 1024 - 2 ^ 970 \<le> n"
  shows "float_of_int n = Inl (OverflowError ''int too large to convert to float'')"
proof -
  have "(of_int (2 ^ 1024 - 2 ^ 970) :: rat) \<le> of_int n"
    using assms by (simp only: of_int_le_iff)
  then have "2 powi 1024 - 2 powi 970 \<le> (of_int n :: rat)" by simp
  then have "round_binary64 (of_int n) = PosInf" by (rule round_binary64_overflow)
  then show ?thesis by (simp add: float_of_int_def)
qed

lemma int_mul_float_ok:
  assumes "0 \<le> n" and "n < 2 ^ 1024 - 2 ^ 970" and "0 < p" and "p < 1"
  shows "\<exists>y x. round_binary64 (of_int n) = Finite y \<and> round_binary64 (y * p) = Finite x \<and>
    int_mul_float n (Finite p) = Inr (Finite x) \<and> 0 \<le> y \<and> 0 \<le> x"
proof -
  from float_of_int_ok [OF assms(1,2)] obtain y
    where y: "round_binary64 (of_int n) = Finite y" "float_of_int n = Inr (Finite y)"
      "0 \<le> y" "y \<le> 2 powi 1024 - 2 powi 971"
    by blast
  have "\<exists>x. round_binary64 (y * p) = Finite x \<and> 0 \<le> x"
  proof (cases "y = 0")
    case True
    then show ?thesis by (simp add: round_binary64_def)
  next
    case False
    with y(3) have "0 < y" by simp
    then have pos: "0 < y * p" using assms(3) by simp
    have "y * p < y * 1" using \<open>0 < y\<close> assms(4) by (intro mult_strict_left_mono)
    then have "y * p < y" by simp
    also note y(4)
    also have "(2::rat) powi 1024 - 2 powi 971 < 2 powi 1024 - 2 powi 970" by simp
    finally have "y * p < 2 powi 1024 - 2 powi 970" .
    from round_binary64_finite [OF pos this] show ?thesis by blast
  qed
  then obtain x where x: "round_binary64 (y * p) = Finite x" "0 \<le> x" by blast
  have "int_mul_float n (Finite p) = Inr (Finite x)"
    by (simp add: int_mul_float_def y(2) x(1))
  with y(1,3) x show ?thesis by blast
qed

lemma Percent_init_rounded:
  assumes "0 \<le> n" and "n < 2 ^ 1024 - 2 ^ 970" and "0 < p" and "p < 1"
  shows "\<exists>y x. nearest_binary64 (of_int n) y \<and> nearest_binary64 (y * p) x \<and>
    Percent_init k c (Finite p) n = Inr (Percent_obj k \<lfloor>x\<rfloor> c)"
proof -
  from int_mul_float_ok [OF assms] obtain y x
    where r: "round_binary64 (of_int n) = Finite y" "round_binary64 (y * p) = Finite x"
      "int_mul_float n (Finite p) = Inr (Finite x)" "0 \<le> y" "0 \<le> x"
    by blast
  have "(0::rat) \<le> of_int n" using assms(1) by simp
  then have 1: "nearest_binary64 (of_int n) y" using r(1) by (rule round_binary64_nearest_even)
  have "0 \<le> y * p" using r(4) assms(3) by simp
  then have 2: "nearest_binary64 (y * p) x" using r(2) by (rule round_binary64_nearest_even)
  from Percent_init_finite [OF assms(3,4,1) r(3)] 1 2 show ?thesis by blast
qed

lemma Percent_init_overflow:
  assumes "0 < p" and "p < 1" and "2 ^ 1024 - 2 ^ 970 \<le> n"
  shows "Percent_init k c (Finite p) n = Inl (OverflowError ''int too large to convert to float'')"
  by (simp add: Percent_init_valid [OF assms(1,2)] int_mul_float_def
      float_of_int_overflow [OF assms(3)])

lemma Percent_init_half: "Percent_init k c (Finite (1 / 2)) 1000 = Inr (Percent_obj k 500 c)"
  using Percent_init_finite [OF _ _ _ int_mul_float_example, of k c] by simp

lemma Percent_init_third:
  "Percent_init k c (Finite (6004799503160661 / 18014398509481984)) 3 = Inr (Percent_obj k 1 c)"
  using Percent_init_finite [OF _ _ _ int_mul_float_third, of k c] by simp

lemma round_binary64_1000: "round_binary64 1000 = Finite 1000"
  using float_of_int_1000 by (simp add: float_of_int_def split: pyfloat.splits)

lemma round_binary64_500: "round_binary64 500 = Finite 500"
proof -
  have "ilog2 500 = 8" by (rule ilog2_unique) simp_all
  then show ?thesis by (simp add: round_binary64_def round_half_even_def Let_def)
qed

section \<open>Composite modifiers\<close>

text \<open>
  Claim C1. The claim: \<^verbatim>\<open>All.condition(i)\<close> is the conjunction and
  \<^verbatim>\<open>Any.condition(i)\<close> the disjunction of the children's \<^verbatim>\<open>condition(i)\<close>, and
  \<^verbatim>\<open>All(UpToIndex(c,100), UpToIndex(c,50)).condition(30)\<close> is \<^verbatim>\<open>True\<close>,
  \<^verbatim>\<open>.condition(75)\<close> is \<^verbatim>\<open>False\<close>. The code calls each child's
  \<^verbatim>\<open>condition()\<close> without the index: on every composite with at least one child, of
  class \<^verbatim>\<open>All\<close> or \<^verbatim>\<open>Any\<close>, \<^verbatim>\<open>condition(i)\<close> raises \<^verbatim>\<open>TypeError\<close> at the
  first child, and so it does on the composite of the example, at 30 and at 75.
\<close>

theorem composite_condition_raises:
  "condition (Mix_obj C_All (m # ms) c') [i] = Inl missing_argument \<and>
   condition (Mix_obj C_Any (m # ms) c') [i] = Inl missing_argument \<and>
   All_of [UpToIndex c 100, UpToIndex c 50] =
     Inr (Mix_obj C_All [UpToIndex c 100, UpToIndex c 50] c) \<and>
   condition (Mix_obj C_All [UpToIndex c 100, UpToIndex c 50] c) [30] = Inl missing_argument \<and>
   condition (Mix_obj C_All [UpToIndex c 100, UpToIndex c 50] c) [75] = Inl missing_argument"
  by (simp add: condition_no_argument All_of_def Mix_init_def UpToIndex_def Index_init_def
      isinstance_def)

text \<open>
  Claim C3, as stated: construction from a non-empty list fails with the validation error
  whenever some element's concrete type differs from the first element's. It does not: a
  later child whose class is derived from the first child's class has a different concrete
  type and is accepted.
\<close>

theorem Mix_init_accepts_subclass:
  "type_of (Index_init (Subclass ''Sub'' C_UpToIndex) 0 50) \<noteq> type_of (UpToIndex 0 100) \<and>
   All_of [UpToIndex 0 100, Index_init (Subclass ''Sub'' C_UpToIndex) 0 50] =
     Inr (Mix_obj C_All [UpToIndex 0 100, Index_init (Subclass ''Sub'' C_UpToIndex) 0 50] 0)"
  by (simp add: All_of_def Mix_init_def UpToIndex_def Index_init_def isinstance_def)

text \<open>
  Claim C3, amended: construction from a non-empty list fails with the validation error
  exactly when some element is not an instance of the first element's concrete type (its
  class is neither that class nor derived from it); otherwise, and so whenever all
  elements have the first element's concrete type, it succeeds and the composite's cacher
  is the first child's cacher; \<^verbatim>\<open>All(UpToIndex(c,a), FromIndex(c,b))\<close> raises the
  validation error.
\<close>

theorem Mix_init_validation:
  assumes "modifiers \<noteq> []"
  shows "(Mix_init k modifiers = Inl (ValueError same_type_message) \<longleftrightarrow>
      (\<exists>m \<in> set modifiers. \<not> isinstance m (type_of (hd modifiers)))) \<and>
     ((\<forall>m \<in> set modifiers. isinstance m (type_of (hd modifiers))) \<longrightarrow>
      Mix_init k modifiers = Inr (Mix_obj k modifiers (cacher (hd modifiers)))) \<and>
     ((\<forall>m \<in> set modifiers. type_of m = type_of (hd modifiers)) \<longrightarrow>
      Mix_init k modifiers = Inr (Mix_obj k modifiers (cacher (hd modifiers)))) \<and>
     All_of [UpToIndex c a, FromIndex c b] = Inl (ValueError same_type_message)"
proof -
  obtain first rest where ms: "modifiers = first # rest"
    using assms by (cases modifiers) auto
  have fails: "Mix_init k modifiers = Inl (ValueError same_type_message) \<longleftrightarrow>
      (\<exists>m \<in> set modifiers. \<not> isinstance m (type_of (hd modifiers)))"
    by (auto simp: ms Mix_init_def list_all_iff isinstance_def issubclass_refl)
  have succeeds: "(\<forall>m \<in> set modifiers. isinstance m (type_of (hd modifiers))) \<longrightarrow>
      Mix_init k modifiers = Inr (Mix_obj k modifiers (cacher (hd modifiers)))"
    by (auto simp: ms Mix_init_def list_all_iff isinstance_def issubclass_refl)
  have same: "(\<forall>m \<in> set modifiers. type_of m = type_of (hd modifiers)) \<longrightarrow>
      Mix_init k modifiers = Inr (Mix_obj k modifiers (cacher (hd modifiers)))"
    using succeeds by (auto simp: isinstance_def issubclass_refl)
  have example: "All_of [UpToIndex c a, FromIndex c b] = Inl (ValueError same_type_message)"
    by (simp add: All_of_def Mix_init_def UpToIndex_def FromIndex_def Index_init_def
        isinstance_def)
  from fails succeeds same example show ?thesis by blast
qed

theorem Mix_init_validation_witness:
  "[UpToIndex 3 100, UpToIndex 4 50] \<noteq> [] \<and>
   type_of (UpToIndex 4 50) = type_of (hd [UpToIndex 3 100, UpToIndex 4 50]) \<and>
   Mix_init C_Any [UpToIndex 3 100, UpToIndex 4 50] =
     Inr (Mix_obj C_Any [UpToIndex 3 100, UpToIndex 4 50] 3) \<and>
   Mix_init C_Any [UpToIndex 3 100, Indices 3 [1, 2]] = Inl (ValueError same_type_message)"
  using Mix_init_validation [of "[UpToIndex 3 100, UpToIndex 4 50]" C_Any]
    Mix_init_validation [of "[UpToIndex 3 100, Indices 3 [1, 2]]" C_Any]
  by (simp add: UpToIndex_def Index_init_def Indices_def isinstance_def)

text \<open>
  Claim C9. The validation tests each child with \<^verbatim>\<open>isinstance\<close> against the first
  child's concrete type, so it depends on the order: with a first child \<open>x\<close> of class
  \<open>t\<close> and later children \<open>ys\<close> whose classes are \<open>t\<close> or derived from it, the
  composite of \<open>x, ys\<close> is built; when the last child's class is properly derived from
  \<open>t\<close>, the same children in the reverse order are rejected.
\<close>

theorem Mix_init_order_dependent:
  assumes "type_of x = t"
    and "\<forall>y \<in> set ys. issubclass (type_of y) t"
    and "ys \<noteq> []"
    and "type_of (last ys) \<noteq> t"
  shows "Mix_init k (x # ys) = Inr (Mix_obj k (x # ys) (cacher x)) \<and>
     Mix_init k (rev (x # ys)) = Inl (ValueError same_type_message)"
proof -
  have accepted: "Mix_init k (x # ys) = Inr (Mix_obj k (x # ys) (cacher x))"
    using assms(1,2) by (simp add: Mix_init_def isinstance_def issubclass_refl list_all_iff)
  obtain y rest where r: "rev ys = y # rest" and y: "y = last ys"
    using assms(3) by (cases "rev ys") (auto simp: last_rev [symmetric] simp del: last_rev)
  have "y \<in> set ys" using y assms(3) by simp
  then have "issubclass (type_of y) t" using assms(2) by blast
  moreover have "type_of y \<noteq> t" using y assms(4) by simp
  ultimately have "\<not> issubclass t (type_of y)"
    using issubclass_antisym by blast
  then have "\<not> isinstance x (type_of y)"
    by (simp add: isinstance_def assms(1))
  then have "Mix_init k (y # rest @ [x]) = Inl (ValueError same_type_message)"
    by (simp add: Mix_init_def)
  then have "Mix_init k (rev (x # ys)) = Inl (ValueError same_type_message)"
    by (simp add: r)
  with accepted show ?thesis ..
qed

theorem Mix_init_order_dependent_witness:
  "type_of (UpToIndex 0 100) = C_UpToIndex \<and>
   issubclass (type_of (Index_init (Subclass ''Sub'' C_UpToIndex) 0 50)) C_UpToIndex \<and>
   type_of (last [Index_init (Subclass ''Sub'' C_UpToIndex) 0 50]) \<noteq> C_UpToIndex \<and>
   Mix_init C_All [UpToIndex 0 100, Index_init (Subclass ''Sub'' C_UpToIndex) 0 50] =
     Inr (Mix_obj C_All [UpToIndex 0 100, Index_init (Subclass ''Sub'' C_UpToIndex) 0 50] 0) \<and>
   Mix_init C_All [Index_init (Subclass ''Sub'' C_UpToIndex) 0 50, UpToIndex 0 100] =
     Inl (ValueError same_type_message)"
  using Mix_init_order_dependent [of "UpToIndex 0 100" C_UpToIndex
      "[Index_init (Subclass ''Sub'' C_UpToIndex) 0 50]" C_All]
  by (simp add: UpToIndex_def Index_init_def)

text \<open>
  Claim C10. Constructing a composite from no modifiers fails at \<^verbatim>\<open>modifiers[0]\<close>
  with \<^verbatim>\<open>IndexError\<close>, before the type check, and so not with the validation error.
\<close>

theorem Mix_init_empty:
  "Mix_init k [] = Inl (IndexError ''tuple index out of range'') \<and>
   Mix_init k [] \<noteq> Inl (ValueError same_type_message)"
  by (simp add: Mix_init_def)

section \<open>Index modifiers\<close>

text \<open>
  Claim C6. For every threshold \<open>t\<close> and index \<open>i\<close>, \<^verbatim>\<open>UpToIndex(cacher, t).condition(i)\<close>
  is \<open>i < t\<close> and \<^verbatim>\<open>FromIndex(cacher, t).condition(i)\<close> is \<open>i > t\<close>; at \<open>i = t\<close> both
  are false.
\<close>

theorem index_conditions_strict:
  "condition (UpToIndex c t) [i] = Inr (i < t) \<and>
   condition (FromIndex c t) [i] = Inr (i > t) \<and>
   condition (UpToIndex c t) [t] = Inr False \<and>
   condition (FromIndex c t) [t] = Inr False"
  by (simp add: UpToIndex_def FromIndex_def Index_init_def)

section \<open>Proxy methods\<close>

text \<open>
  Claim C2. When \<^verbatim>\<open>condition(i)\<close> returns \<open>b\<close>, \<^verbatim>\<open>m.contains(i)\<close> is
  \<open>b\<close> and \<^verbatim>\<open>cacher.contains(i)\<close>: for true \<open>b\<close> it is the call of the store's
  \<^verbatim>\<open>contains\<close>, for false \<open>b\<close> it returns \<^verbatim>\<open>False\<close> in the unchanged world, whose
  call log shows that no store was called.
\<close>

theorem contains_gated:
  assumes "condition m [i] = Inr b"
  shows "(b \<longrightarrow> contains cs m i w = call_contains cs (cacher m) i w) \<and>
     (\<not> b \<longrightarrow> contains cs m i w = (Inr False, w)) \<and>
     (\<forall>b' s. cacher_contains cs (cacher m) i (stores w) = (Inr b', s) \<longrightarrow>
        fst (contains cs m i w) = Inr (b \<and> b'))"
  using assms by (auto simp: contains_def call_contains_def)

theorem contains_gated_witness:
  "condition (UpToIndex 0 5) [7] = Inr False \<and>
   contains dict_cachers (UpToIndex 0 5) 7 \<lparr>stores = [((0, 7), 1 :: nat)], calls = []\<rparr> =
     (Inr False, \<lparr>stores = [((0, 7), 1)], calls = []\<rparr>) \<and>
   condition (UpToIndex 0 5) [3] = Inr True \<and>
   contains dict_cachers (UpToIndex 0 5) 3 \<lparr>stores = [((0, 3), 1 :: nat)], calls = []\<rparr> =
     (Inr True, \<lparr>stores = [((0, 3), 1)], calls = [Contains_call 0 3]\<rparr>)"
  using contains_gated [of "UpToIndex 0 5" 7 False dict_cachers
      "\<lparr>stores = [((0, 7), 1 :: nat)], calls = []\<rparr>"]
    contains_gated [of "UpToIndex 0 5" 3 True dict_cachers
      "\<lparr>stores = [((0, 3), 1 :: nat)], calls = []\<rparr>"]
  by (simp add: UpToIndex_def Index_init_def call_contains_def dict_cachers_def)

text \<open>
  Claim C4. When \<^verbatim>\<open>condition(i)\<close> returns true, \<^verbatim>\<open>m.set(i, v)\<close> is the call of
  the store's \<^verbatim>\<open>set\<close>; when it returns false, \<^verbatim>\<open>m.set(i, v)\<close> returns
  \<^verbatim>\<open>None\<close> without an error in the unchanged world: the stores and the call log are
  as before.
\<close>

theorem setitem_gated:
  assumes "condition m [i] = Inr b"
  shows "(b \<longrightarrow> setitem cs m i v w = call_setitem cs (cacher m) i v w) \<and>
     (\<not> b \<longrightarrow> setitem cs m i v w = (Inr (), w))"
  using assms by (auto simp: setitem_def)

theorem setitem_gated_witness:
  "condition (FromIndex 2 5) [5] = Inr False \<and>
   setitem dict_cachers (FromIndex 2 5) 5 (9 :: nat) \<lparr>stores = [], calls = []\<rparr> =
     (Inr (), \<lparr>stores = [], calls = []\<rparr>) \<and>
   condition (FromIndex 2 5) [6] = Inr True \<and>
   setitem dict_cachers (FromIndex 2 5) 6 (9 :: nat) \<lparr>stores = [], calls = []\<rparr> =
     (Inr (), \<lparr>stores = [((2, 6), 9)], calls = [Setitem_call 2 6 9]\<rparr>)"
  using setitem_gated [of "FromIndex 2 5" 5 False dict_cachers 9 "\<lparr>stores = [], calls = []\<rparr>"]
    setitem_gated [of "FromIndex 2 5" 6 True dict_cachers 9 "\<lparr>stores = [], calls = []\<rparr>"]
  by (simp add: FromIndex_def Index_init_def call_setitem_def dict_cachers_def)

text \<open>
  Claim C5. \<^verbatim>\<open>m.get(i)\<close> is the call of the store's \<^verbatim>\<open>get\<close> on the modifier's
  cacher, whatever \<^verbatim>\<open>condition(i)\<close> is: it returns the store's result, leaves the
  stores as the store's \<^verbatim>\<open>get\<close> leaves them, and logs exactly that one call.
\<close>

theorem getitem_unconditional:
  "getitem cs m i w = call_getitem cs (cacher m) i w \<and>
   fst (getitem cs m i w) = fst (cacher_getitem cs (cacher m) i (stores w)) \<and>
   stores (snd (getitem cs m i w)) = snd (cacher_getitem cs (cacher m) i (stores w)) \<and>
   calls (snd (getitem cs m i w)) = calls w @ [Getitem_call (cacher m) i]"
  by (simp add: getitem_def call_getitem_def split: prod.splits)

section \<open>Percentage modifiers\<close>

text \<open>
  Claim C7, as stated: for every \<open>length \<ge> 0\<close> and \<open>p\<close> strictly between 0 and 1 the
  threshold is the floor of \<open>length * p\<close>, and \<^verbatim>\<open>UpToPercentage.condition(i)\<close> is
  \<open>i < threshold\<close>. It is not: with \<open>p\<close> the float nearest to \<open>1 / 3\<close> and
  \<open>length = 3\<close> the floor of the product is 0, but the constructor stores the threshold
  1, so \<^verbatim>\<open>condition(0)\<close> is true; and with \<open>length = 2 ^ 1024\<close> the constructor
  raises \<^verbatim>\<open>OverflowError\<close> and stores no threshold.
\<close>

theorem percentage_threshold_not_exact:
  "(0::int) \<le> 3 \<and>
   (0::rat) < 6004799503160661 / 18014398509481984 \<and>
   (6004799503160661 / 18014398509481984 :: rat) < 1 \<and>
   round_binary64 (1 / 3) = Finite (6004799503160661 / 18014398509481984) \<and>
   UpToPercentage 0 (Finite (6004799503160661 / 18014398509481984)) 3 =
     Inr (Percent_obj C_UpToPercentage 1 0) \<and>
   \<lfloor>of_int 3 * (6004799503160661 / 18014398509481984 :: rat)\<rfloor> = 0 \<and>
   condition (Percent_obj C_UpToPercentage 1 0) [0] = Inr True \<and>
   \<not> (0::int) < \<lfloor>of_int 3 * (6004799503160661 / 18014398509481984 :: rat)\<rfloor> \<and>
   (0::int) \<le> 2 ^ 1024 \<and>
   UpToPercentage 0 (Finite (1 / 2)) (2 ^ 1024) =
     Inl (OverflowError ''int too large to convert to float'')"
proof -
  have fl: "\<lfloor>of_int 3 * (6004799503160661 / 18014398509481984 :: rat)\<rfloor> = 0"
    by (simp add: floor_rat_numeral)
  have ov: "UpToPercentage 0 (Finite (1 / 2)) (2 ^ 1024) =
     Inl (OverflowError ''int too large to convert to float'')"
    unfolding UpToPercentage_def by (rule Percent_init_overflow) simp_all
  show ?thesis
    using fl ov round_binary64_third Percent_init_third [of C_UpToPercentage 0]
    by (simp add: UpToPercentage_def)
qed

text \<open>
  Claim C7, amended: for every \<open>length\<close> from 0 up to (excluding)
  \<open>2 ^ 1024 - 2 ^ 970\<close> and \<open>p\<close> strictly between 0 and 1, the constructors store the
  threshold \<open>\<lfloor>x\<rfloor>\<close>, where \<open>x\<close> is the float product \<^verbatim>\<open>length * p\<close>: with \<open>y\<close> the
  binary64 value nearest to \<open>length\<close>, \<open>x\<close> is the binary64 value nearest to the exact
  \<open>y * p\<close>, ties going to the even significand. On the instance,
  \<^verbatim>\<open>UpToPercentage.condition(i)\<close> is \<open>i < threshold\<close> and
  \<^verbatim>\<open>FromPercentage.condition(i)\<close> is \<open>i > threshold\<close>. From \<open>2 ^ 1024 - 2 ^ 970\<close> on
  the constructors raise \<^verbatim>\<open>OverflowError\<close>. With \<open>p = 0.5\<close> and \<open>length = 1000\<close>
  the threshold is 500: \<^verbatim>\<open>condition(499)\<close> is true and \<^verbatim>\<open>condition(500)\<close> false;
  with \<open>p\<close> the float nearest to \<open>1 / 3\<close> and \<open>length = 3\<close> it is 1.
\<close>

theorem percentage_threshold_rounded:
  assumes "0 \<le> len" and "0 < p" and "p < 1"
  shows "(len < 2 ^ 1024 - 2 ^ 970 \<longrightarrow>
       (\<exists>y x. nearest_binary64 (of_int len) y \<and> nearest_binary64 (y * p) x \<and>
          UpToPercentage c (Finite p) len = Inr (Percent_obj C_UpToPercentage \<lfloor>x\<rfloor> c) \<and>
          FromPercentage c (Finite p) len = Inr (Percent_obj C_FromPercentage \<lfloor>x\<rfloor> c) \<and>
          (\<forall>i. condition (Percent_obj C_UpToPercentage \<lfloor>x\<rfloor> c) [i] = Inr (i < \<lfloor>x\<rfloor>)) \<and>
          (\<forall>i. condition (Percent_obj C_FromPercentage \<lfloor>x\<rfloor> c) [i] = Inr (i > \<lfloor>x\<rfloor>)))) \<and>
    (2 ^ 1024 - 2 ^ 970 \<le> len \<longrightarrow>
       UpToPercentage c (Finite p) len =
         Inl (OverflowError ''int too large to convert to float'') \<and>
       FromPercentage c (Finite p) len =
         Inl (OverflowError ''int too large to convert to float'')) \<and>
    UpToPercentage c (Finite (1 / 2)) 1000 = Inr (Percent_obj C_UpToPercentage 500 c) \<and>
    condition (Percent_obj C_UpToPercentage 500 c) [499] = Inr True \<and>
    condition (Percent_obj C_UpToPercentage 500 c) [500] = Inr False \<and>
    UpToPercentage c (Finite (6004799503160661 / 18014398509481984)) 3 =
      Inr (Percent_obj C_UpToPercentage 1 c)"
proof -
  have built: "len < 2 ^ 1024 - 2 ^ 970 \<longrightarrow>
       (\<exists>y x. nearest_binary64 (of_int len) y \<and> nearest_binary64 (y * p) x \<and>
          UpToPercentage c (Finite p) len = Inr (Percent_obj C_UpToPercentage \<lfloor>x\<rfloor> c) \<and>
          FromPercentage c (Finite p) len = Inr (Percent_obj C_FromPercentage \<lfloor>x\<rfloor> c) \<and>
          (\<forall>i. condition (Percent_obj C_UpToPercentage \<lfloor>x\<rfloor> c) [i] = Inr (i < \<lfloor>x\<rfloor>)) \<and>
          (\<forall>i. condition (Percent_obj C_FromPercentage \<lfloor>x\<rfloor> c) [i] = Inr (i > \<lfloor>x\<rfloor>)))"
  proof
    assume small: "len < 2 ^ 1024 - 2 ^ 970"
    from int_mul_float_ok [OF assms(1) small assms(2,3)] obtain y x
      where r: "round_binary64 (of_int len) = Finite y" "round_binary64 (y * p) = Finite x"
        "int_mul_float len (Finite p) = Inr (Finite x)" "0 \<le> y" "0 \<le> x"
      by blast
    have "(0::rat) \<le> of_int len" using assms(1) by simp
    then have 1: "nearest_binary64 (of_int len) y"
      using r(1) by (rule round_binary64_nearest_even)
    have "0 \<le> y * p" using r(4) assms(2) by simp
    then have 2: "nearest_binary64 (y * p) x"
      using r(2) by (rule round_binary64_nearest_even)
    have 3: "UpToPercentage c (Finite p) len = Inr (Percent_obj C_UpToPercentage \<lfloor>x\<rfloor> c)"
      unfolding UpToPercentage_def by (rule Percent_init_finite [OF assms(2,3,1) r(3)])
    have 4: "FromPercentage c (Finite p) len = Inr (Percent_obj C_FromPercentage \<lfloor>x\<rfloor> c)"
      unfolding FromPercentage_def by (rule Percent_init_finite [OF assms(2,3,1) r(3)])
    have 5: "\<forall>i. condition (Percent_obj C_UpToPercentage \<lfloor>x\<rfloor> c) [i] = Inr (i < \<lfloor>x\<rfloor>)"
      by simp
    have 6: "\<forall>i. condition (Percent_obj C_FromPercentage \<lfloor>x\<rfloor> c) [i] = Inr (i > \<lfloor>x\<rfloor>)"
      by simp
    from 1 2 3 4 5 6
    show "\<exists>y x. nearest_binary64 (of_int len) y \<and> nearest_binary64 (y * p) x \<and>
          UpToPercentage c (Finite p) len = Inr (Percent_obj C_UpToPercentage \<lfloor>x\<rfloor> c) \<and>
          FromPercentage c (Finite p) len = Inr (Percent_obj C_FromPercentage \<lfloor>x\<rfloor> c) \<and>
          (\<forall>i. condition (Percent_obj C_UpToPercentage \<lfloor>x\<rfloor> c) [i] = Inr (i < \<lfloor>x\<rfloor>)) \<and>
          (\<forall>i. condition (Percent_obj C_FromPercentage \<lfloor>x\<rfloor> c) [i] = Inr (i > \<lfloor>x\<rfloor>))"
      by blast
  qed
  have raised: "2 ^ 1024 - 2 ^ 970 \<le> len \<longrightarrow>
       UpToPercentage c (Finite p) len =
         Inl (OverflowError ''int too large to convert to float'') \<and>
       FromPercentage c (Finite p) len =
         Inl (OverflowError ''int too large to convert to float'')"
  proof
    assume "2 ^ 1024 - 2 ^ 970 \<le> len"
    from Percent_init_overflow [OF assms(2,3) this]
    show "UpToPercentage c (Finite p) len =
         Inl (OverflowError ''int too large to convert to float'') \<and>
       FromPercentage c (Finite p) len =
         Inl (OverflowError ''int too large to convert to float'')"
      unfolding UpToPercentage_def FromPercentage_def by blast
  qed
  have half: "UpToPercentage c (Finite (1 / 2)) 1000 = Inr (Percent_obj C_UpToPercentage 500 c)"
    unfolding UpToPercentage_def by (rule Percent_init_half)
  have c499: "condition (Percent_obj C_UpToPercentage 500 c) [499] = Inr True" by simp
  have c500: "condition (Percent_obj C_UpToPercentage 500 c) [500] = Inr False" by simp
  have third: "UpToPercentage c (Finite (6004799503160661 / 18014398509481984)) 3 =
      Inr (Percent_obj C_UpToPercentage 1 c)"
    unfolding UpToPercentage_def by (rule Percent_init_third)
  show ?thesis
    by (intro conjI built raised half c499 c500 third)
qed

theorem percentage_threshold_rounded_witness:
  "(0::int) \<le> 1000 \<and> (0::rat) < 1 / 2 \<and> (1 / 2 :: rat) < 1 \<and>
   (1000::int) < 2 ^ 1024 - 2 ^ 970 \<and>
   nearest_binary64 (of_int 1000) 1000 \<and> nearest_binary64 (1000 * (1 / 2)) 500 \<and>
   UpToPercentage 0 (Finite (1 / 2)) 1000 = Inr (Percent_obj C_UpToPercentage \<lfloor>500 :: rat\<rfloor> 0) \<and>
   FromPercentage 0 (Finite (1 / 2)) 1000 = Inr (Percent_obj C_FromPercentage \<lfloor>500 :: rat\<rfloor> 0) \<and>
   condition (Percent_obj C_UpToPercentage 500 0) [499] = Inr True \<and>
   condition (Percent_obj C_UpToPercentage 500 0) [500] = Inr False \<and>
   condition (Percent_obj C_FromPercentage 500 0) [500] = Inr False \<and>
   condition (Percent_obj C_FromPercentage 500 0) [501] = Inr True"
proof -
  have h: "(0::int) \<le> 1000" "(0::rat) < 1 / 2" "(1 / 2 :: rat) < 1" by simp_all
  have small: "(1000::int) < 2 ^ 1024 - 2 ^ 970" by simp
  have n1: "nearest_binary64 (of_int 1000) 1000"
    using round_binary64_nearest_even [of 1000 1000] round_binary64_1000 by simp
  have n2: "nearest_binary64 (1000 * (1 / 2)) 500"
    using round_binary64_nearest_even [of 500 500] round_binary64_500 by simp
  from percentage_threshold_rounded [OF h, of 0] small obtain y x
    where r: "nearest_binary64 (of_int 1000) y" "nearest_binary64 (y * (1 / 2)) x"
      "UpToPercentage 0 (Finite (1 / 2)) 1000 = Inr (Percent_obj C_UpToPercentage \<lfloor>x\<rfloor> 0)"
      "FromPercentage 0 (Finite (1 / 2)) 1000 = Inr (Percent_obj C_FromPercentage \<lfloor>x\<rfloor> 0)"
    by blast
  have y: "y = 1000" using r(1) n1 by (rule nearest_binary64_unique)
  have x: "x = 500" using r(2) [unfolded y] n2 by (rule nearest_binary64_unique)
  show ?thesis
    using h small n1 n2 r(3,4) unfolding x by simp
qed

text \<open>
  Claim C8. The constructor of a percentage modifier raises the validation error exactly
  when \<open>p\<close> is not a float strictly between 0 and 1: \<open>p = 0\<close> and \<open>p = 1\<close> are
  rejected, and for \<open>p\<close> strictly between 0 and 1 (and a length from 0 up to
  \<open>2 ^ 1023\<close>) the instance is built.
\<close>

theorem percentage_validation:
  "(Percent_init k c p len = Inl (ValueError percentage_message) \<longleftrightarrow>
      \<not> (\<exists>x. p = Finite x \<and> 0 < x \<and> x < 1)) \<and>
   ((\<exists>x. p = Finite x \<and> 0 < x \<and> x < 1) \<and> 0 \<le> len \<and> len < 2 ^ 1023 \<longrightarrow>
      (\<exists>obj. Percent_init k c p len = Inr obj)) \<and>
   UpToPercentage c (Finite 0) len = Inl (ValueError percentage_message) \<and>
   UpToPercentage c (Finite 1) len = Inl (ValueError percentage_message) \<and>
   FromPercentage c (Finite 0) len = Inl (ValueError percentage_message) \<and>
   FromPercentage c (Finite 1) len = Inl (ValueError percentage_message)"
proof -
  have rejected: "Percent_init k c p len = Inl (ValueError percentage_message) \<longleftrightarrow>
      \<not> (\<exists>x. p = Finite x \<and> 0 < x \<and> x < 1)"
  proof (cases "\<exists>x. p = Finite x \<and> 0 < x \<and> x < 1")
    case True
    then obtain x where x: "p = Finite x" "0 < x" "x < 1" by blast
    have "Percent_init k c (Finite x) len \<noteq> Inl (ValueError percentage_message)"
    proof (cases "0 \<le> len")
      case True
      show ?thesis
      proof
        assume "Percent_init k c (Finite x) len = Inl (ValueError percentage_message)"
        from Percent_init_Inl [OF x(2,3) True this] show False by simp
      qed
    next
      case False
      show ?thesis
      proof (cases "int_mul_float len (Finite x)")
        case (Inl e)
        from int_mul_float_error [OF Inl] Inl show ?thesis
          by (simp add: Percent_init_valid [OF x(2,3)])
      next
        case (Inr y)
        have "y \<noteq> NaN" using Inr int_mul_float_not_NaN [of len x] by auto
        with Inr show ?thesis
          by (cases y) (simp_all add: Percent_init_valid [OF x(2,3)] int_of_float_def)
      qed
    qed
    with True x(1) show ?thesis by simp
  next
    case False
    then have "Percent_init k c p len = Inl (ValueError percentage_message)"
      by (cases p) (auto simp: Percent_init_def int_lt_float_def float_lt_int_def)
    with False show ?thesis by simp
  qed
  have accepted: "(\<exists>x. p = Finite x \<and> 0 < x \<and> x < 1) \<and> 0 \<le> len \<and> len < 2 ^ 1023 \<longrightarrow>
      (\<exists>obj. Percent_init k c p len = Inr obj)"
  proof
    assume a: "(\<exists>x. p = Finite x \<and> 0 < x \<and> x < 1) \<and> 0 \<le> len \<and> len < 2 ^ 1023"
    then obtain x where x: "p = Finite x" "0 < x" "x < 1" by blast
    from a have l: "0 \<le> len" "len < 2 ^ 1023" by blast+
    from int_mul_float_finite [OF l x(2,3)] obtain y
      where "int_mul_float len (Finite x) = Inr (Finite y)" by blast
    from Percent_init_finite [OF x(2,3) l(1) this, of k c] x(1) show "\<exists>obj. Percent_init k c p len = Inr obj"
      by blast
  qed
  have endpoints:
    "UpToPercentage c (Finite 0) len = Inl (ValueError percentage_message)"
    "UpToPercentage c (Finite 1) len = Inl (ValueError percentage_message)"
    "FromPercentage c (Finite 0) len = Inl (ValueError percentage_message)"
    "FromPercentage c (Finite 1) len = Inl (ValueError percentage_message)"
    by (simp_all add: UpToPercentage_def FromPercentage_def Percent_init_def int_lt_float_def
        float_lt_int_def)
  show ?thesis
    by (intro conjI rejected accepted endpoints)
qed

theorem percentage_validation_witness:
  "UpToPercentage 0 (Finite (1 / 2)) 1000 = Inr (Percent_obj C_UpToPercentage 500 0) \<and>
   UpToPercentage 0 (Finite (3 / 2)) 1000 = Inl (ValueError percentage_message) \<and>
   UpToPercentage 0 NaN 1000 = Inl (ValueError percentage_message)"
proof -
  have "Percent_init C_UpToPercentage 0 (Finite (3 / 2)) 1000 = Inl (ValueError percentage_message)"
    using percentage_validation [of C_UpToPercentage 0 "Finite (3 / 2)" 1000] by simp
  moreover have "Percent_init C_UpToPercentage 0 NaN 1000 = Inl (ValueError percentage_message)"
    using percentage_validation [of C_UpToPercentage 0 NaN 1000] by simp
  moreover have "Percent_init C_UpToPercentage 0 (Finite (1 / 2)) 1000 =
      Inr (Percent_obj C_UpToPercentage 500 0)"
    by (simp add: Percent_init_finite [OF _ _ _ int_mul_float_example])
  ultimately show ?thesis by (simp add: UpToPercentage_def)
qed

end
